theory Spec2Isabelle
  imports
    Main
    "HOL-Library.Word"
    "HOL-Library.Char_ord"
    "HOL-Library.List_Lexorder"
begin

unbundle bit_operations_syntax

section \<open>Python values\<close>

text \<open>
  A Python \<open>str\<close> is modelled as a \<open>string\<close>: a list of code points below 256.
  The character classes below are those of Python 3 on that range.
  Exceptions are values of \<open>error\<close>; a function that can raise returns
  \<open>error + 'a\<close>, with \<open>Inl\<close> for the exception.
\<close>

datatype error =
    Exception string
  | ValueError
  | AttributeError
  | TypeError
  | IndexError
  | OSError

text \<open>\<open>str.isspace\<close> on one character, which is also the class \<open>\s\<close> of \<open>re\<close>.\<close>

definition isspace :: "char \<Rightarrow> bool" where
  "isspace c =
     (let n = (of_char c :: nat)
      in (9 \<le> n \<and> n \<le> 13) \<or> (28 \<le> n \<and> n \<le> 32) \<or> n = 133 \<or> n = 160)"

text \<open>\<open>str.strip()\<close> with no argument: leading and trailing whitespace removed.\<close>

definition strip :: "string \<Rightarrow> string" where
  "strip s = rev (dropWhile isspace (rev (dropWhile isspace s)))"

section \<open>Text extraction from a PDF (resume\_parser.py)\<close>

text \<open>
  The two PDF libraries are outside the repository. What \<open>extract_text_from_pdf\<close>
  can observe of them is: opening the document raises or gives the pages, and reading the
  text of a page raises or gives a string (pdfplumber's \<open>extract_text\<close> may give
  \<open>None\<close>, which the source turns into the empty string with \<open>or ""\<close>).
\<close>

type_synonym bytes = "8 word list"

record pdf_libs =
  fitz_open :: "bytes \<Rightarrow> error + (error + string) list"
  pdfplumber_open :: "bytes \<Rightarrow> error + (error + string option) list"

text \<open>The library calls made, in order: the observable trace of one extraction.\<close>

datatype call = FitzOpen | PdfplumberOpen

text \<open>\<open>for page in doc: text += page.get_text()\<close>\<close>

fun fitz_pages :: "string \<Rightarrow> (error + string) list \<Rightarrow> error + string" where
  "fitz_pages text [] = Inr text"
| "fitz_pages text (Inl e # pages) = Inl e"
| "fitz_pages text (Inr t # pages) = fitz_pages (text @ t) pages"

text \<open>\<open>for page in pdf.pages: text += page.extract_text() or ""\<close>\<close>

fun pdfplumber_pages :: "string \<Rightarrow> (error + string option) list \<Rightarrow> error + string" where
  "pdfplumber_pages text [] = Inr text"
| "pdfplumber_pages text (Inl e # pages) = Inl e"
| "pdfplumber_pages text (Inr None # pages) = pdfplumber_pages (text @ []) pages"
| "pdfplumber_pages text (Inr (Some t) # pages) = pdfplumber_pages (text @ t) pages"

text \<open>
  The first \<open>try\<close> block: the text PyMuPDF gives, or the empty string when anything in
  the block raised (\<open>except Exception: text = ""\<close>).
\<close>

definition primary_text :: "pdf_libs \<Rightarrow> bytes \<Rightarrow> string" where
  "primary_text libs file_content =
     (case fitz_open libs file_content of
        Inl e \<Rightarrow> []
      | Inr doc \<Rightarrow> (case fitz_pages [] doc of Inl e \<Rightarrow> [] | Inr text \<Rightarrow> text))"

text \<open>
  The second \<open>try\<close> block, entered with the text of the first: pdfplumber's page texts
  are appended to it; any exception becomes \<open>Exception("Failed to extract text from PDF")\<close>.
\<close>

definition secondary_text :: "pdf_libs \<Rightarrow> bytes \<Rightarrow> string \<Rightarrow> error + string" where
  "secondary_text libs file_content text =
     (case pdfplumber_open libs file_content of
        Inl e \<Rightarrow> Inl (Exception ''Failed to extract text from PDF'')
      | Inr pages \<Rightarrow>
          (case pdfplumber_pages text pages of
             Inl e \<Rightarrow> Inl (Exception ''Failed to extract text from PDF'')
           | Inr text' \<Rightarrow> Inr text'))"

definition extract_text_from_pdf :: "pdf_libs \<Rightarrow> bytes \<Rightarrow> call list \<times> (error + string)" where
  "extract_text_from_pdf libs file_content =
     (let text = primary_text libs file_content
      in if strip text = []
         then ([FitzOpen, PdfplumberOpen], secondary_text libs file_content text)
         else ([FitzOpen], Inr text))"

text \<open>What the primary and the secondary strategy yield on their own.\<close>

definition primary_yields :: "pdf_libs \<Rightarrow> bytes \<Rightarrow> error + string" where
  "primary_yields libs file_content =
     (case fitz_open libs file_content of
        Inl e \<Rightarrow> Inl e
      | Inr doc \<Rightarrow> fitz_pages [] doc)"

definition secondary_yields :: "pdf_libs \<Rightarrow> bytes \<Rightarrow> error + string" where
  "secondary_yields libs file_content =
     (case pdfplumber_open libs file_content of
        Inl e \<Rightarrow> Inl e
      | Inr pages \<Rightarrow> pdfplumber_pages [] pages)"

definition blank :: "string \<Rightarrow> bool" where
  "blank s = list_all isspace s"

text \<open>Libraries that answer the same whatever the bytes: the inputs of the examples.\<close>

definition libs_of ::
  "(error + (error + string) list) \<Rightarrow> (error + (error + string option) list) \<Rightarrow> pdf_libs" where
  "libs_of a b = \<lparr>fitz_open = (\<lambda>file_content. a), pdfplumber_open = (\<lambda>file_content. b)\<rparr>"


section \<open>SHA-256 (hashlib.sha256)\<close>

text \<open>
  \<open>hashlib\<close> is outside the repository; \<open>hashlib.sha256(b).hexdigest()\<close> is the
  SHA-256 of FIPS 180-4 written as 64 lowercase hexadecimal digits. It is modelled in full
  on 32-bit words, so that digests of concrete inputs can be computed.
\<close>

type_synonym u32 = "32 word"

definition K256 :: "u32 list" where
  "K256 =
     [0x428A2F98, 0x71374491, 0xB5C0FBCF, 0xE9B5DBA5, 0x3956C25B, 0x59F111F1,
      0x923F82A4, 0xAB1C5ED5, 0xD807AA98, 0x12835B01, 0x243185BE, 0x550C7DC3,
      0x72BE5D74, 0x80DEB1FE, 0x9BDC06A7, 0xC19BF174, 0xE49B69C1, 0xEFBE4786,
      0x0FC19DC6, 0x240CA1CC, 0x2DE92C6F, 0x4A7484AA, 0x5CB0A9DC, 0x76F988DA,
      0x983E5152, 0xA831C66D, 0xB00327C8, 0xBF597FC7, 0xC6E00BF3, 0xD5A79147,
      0x06CA6351, 0x14292967, 0x27B70A85, 0x2E1B2138, 0x4D2C6DFC, 0x53380D13,
      0x650A7354, 0x766A0ABB, 0x81C2C92E, 0x92722C85, 0xA2BFE8A1, 0xA81A664B,
      0xC24B8B70, 0xC76C51A3, 0xD192E819, 0xD6990624, 0xF40E3585, 0x106AA070,
      0x19A4C116, 0x1E376C08, 0x2748774C, 0x34B0BCB5, 0x391C0CB3, 0x4ED8AA4A,
      0x5B9CCA4F, 0x682E6FF3, 0x748F82EE, 0x78A5636F, 0x84C87814, 0x8CC70208,
      0x90BEFFFA, 0xA4506CEB, 0xBEF9A3F7, 0xC67178F2]"

type_synonym hstate = "u32 \<times> u32 \<times> u32 \<times> u32 \<times> u32 \<times> u32 \<times> u32 \<times> u32"

definition H256 :: hstate where
  "H256 = (0x6A09E667, 0xBB67AE85, 0x3C6EF372, 0xA54FF53A, 0x510E527F, 0x9B05688C, 0x1F83D9AB, 0x5BE0CD19)"

definition rotr :: "nat \<Rightarrow> u32 \<Rightarrow> u32" where
  "rotr n x = drop_bit n x OR push_bit (32 - n) x"

definition Ch :: "u32 \<Rightarrow> u32 \<Rightarrow> u32 \<Rightarrow> u32" where
  "Ch x y z = (x AND y) XOR (NOT x AND z)"

definition Maj :: "u32 \<Rightarrow> u32 \<Rightarrow> u32 \<Rightarrow> u32" where
  "Maj x y z = (x AND y) XOR (x AND z) XOR (y AND z)"

definition Sigma0 :: "u32 \<Rightarrow> u32" where
  "Sigma0 x = rotr 2 x XOR rotr 13 x XOR rotr 22 x"

definition Sigma1 :: "u32 \<Rightarrow> u32" where
  "Sigma1 x = rotr 6 x XOR rotr 11 x XOR rotr 25 x"

definition sigma0 :: "u32 \<Rightarrow> u32" where
  "sigma0 x = rotr 7 x XOR rotr 18 x XOR drop_bit 3 x"

definition sigma1 :: "u32 \<Rightarrow> u32" where
  "sigma1 x = rotr 17 x XOR rotr 19 x XOR drop_bit 10 x"

text \<open>Padding: a 1 bit, zeros, and the length in bits as 64 bits, to a multiple of 64 bytes.\<close>

definition be64 :: "nat \<Rightarrow> bytes" where
  "be64 n = map (\<lambda>i. ucast (drop_bit (8 * (7 - i)) (of_nat n :: 64 word))) [0..<8]"

definition pad :: "bytes \<Rightarrow> bytes" where
  "pad m = m @ [0x80] @ replicate ((119 - length m mod 64) mod 64) 0 @ be64 (8 * length m)"

fun words_of :: "bytes \<Rightarrow> u32 list" where
  "words_of (a # b # c # d # rest) =
     (push_bit 24 (ucast a) OR push_bit 16 (ucast b) OR push_bit 8 (ucast c) OR ucast d)
       # words_of rest"
| "words_of rest = []"

text \<open>The message schedule: the 16 words of a block extended to 64.\<close>

fun extend :: "nat \<Rightarrow> u32 list \<Rightarrow> u32 list" where
  "extend 0 w = w"
| "extend (Suc n) w =
     (let t = length w
      in extend n (w @ [sigma1 (w ! (t - 2)) + w ! (t - 7) + sigma0 (w ! (t - 15)) + w ! (t - 16)]))"

definition schedule :: "bytes \<Rightarrow> u32 list" where
  "schedule block = extend 48 (words_of block)"

fun round :: "hstate \<Rightarrow> u32 \<times> u32 \<Rightarrow> hstate" where
  "round (a, b, c, d, e, f, g, h) (k, w) =
     (let t1 = h + Sigma1 e + Ch e f g + k + w;
          t2 = Sigma0 a + Maj a b c
      in (t1 + t2, a, b, c, d + t1, e, f, g))"

fun add_state :: "hstate \<Rightarrow> hstate \<Rightarrow> hstate" where
  "add_state (a, b, c, d, e, f, g, h) (a', b', c', d', e', f', g', h') =
     (a + a', b + b', c + c', d + d', e + e', f + f', g + g', h + h')"

definition compress :: "hstate \<Rightarrow> bytes \<Rightarrow> hstate" where
  "compress st block = add_state st (foldl round st (zip K256 (schedule block)))"

fun process :: "hstate \<Rightarrow> bytes \<Rightarrow> hstate" where
  "process st m = (if length m < 64 then st else process (compress st (take 64 m)) (drop 64 m))"

definition sha256 :: "bytes \<Rightarrow> hstate" where
  "sha256 m = process H256 (pad m)"

definition hexchar :: "nat \<Rightarrow> char" where
  "hexchar n = ''0123456789abcdef'' ! (n mod 16)"

definition hex32 :: "u32 \<Rightarrow> string" where
  "hex32 w = map (\<lambda>i. hexchar (unat (drop_bit (4 * (7 - i)) w AND 15))) [0..<8]"

fun hexdigest :: "hstate \<Rightarrow> string" where
  "hexdigest (a, b, c, d, e, f, g, h) =
     hex32 a @ hex32 b @ hex32 c @ hex32 d @ hex32 e @ hex32 f @ hex32 g @ hex32 h"

text \<open>\<open>str.encode()\<close>: UTF-8, of code points below 256.\<close>

definition encode :: "string \<Rightarrow> bytes" where
  "encode s =
     concat (map (\<lambda>c. let n = (of_char c :: nat)
                      in if n < 128 then [of_nat n]
                         else [of_nat (192 + n div 64), of_nat (128 + n mod 64)]) s)"

text \<open>\<open>hashlib.sha256(s.encode()).hexdigest()\<close>\<close>

definition sha256_hex :: "string \<Rightarrow> string" where
  "sha256_hex s = hexdigest (sha256 (encode s))"

section \<open>Anonymization (prompt\_manager.py, DataPrivacyManager)\<close>

text \<open>
  The candidate data is a \<open>Dict\<close> from field names to values of several types.
\<close>

datatype pyval = PNone | PStr string | PInt int | PList "string list"

type_synonym pydict = "string \<rightharpoonup> pyval"

text \<open>\<open>s.split(sep)\<close> for a separator of one character.\<close>

fun split_on :: "char \<Rightarrow> string \<Rightarrow> string list" where
  "split_on sep [] = [[]]"
| "split_on sep (c # cs) =
     (if c = sep then [] # split_on sep cs
      else (case split_on sep cs of [] \<Rightarrow> [[c]] | p # ps \<Rightarrow> (c # p) # ps))"

text \<open>
  \<open>s.split()\<close>: the maximal runs of characters that are not whitespace; \<open>cur\<close> is the
  run being read.
\<close>

fun split_runs :: "string \<Rightarrow> string \<Rightarrow> string list" where
  "split_runs cur [] = (if cur = [] then [] else [cur])"
| "split_runs cur (c # cs) =
     (if isspace c then (if cur = [] then split_runs [] cs else cur # split_runs [] cs)
      else split_runs (cur @ [c]) cs)"

definition split_ws :: "string \<Rightarrow> string list" where
  "split_ws s = split_runs [] s"

text \<open>\<open>sep.join(parts)\<close>\<close>

fun join :: "string \<Rightarrow> string list \<Rightarrow> string" where
  "join sep [] = []"
| "join sep [p] = p"
| "join sep (p # q # ps) = p @ sep @ join sep (q # ps)"

text \<open>\<open>s[0]\<close>, which raises on the empty string.\<close>

fun first_char :: "string \<Rightarrow> error + char" where
  "first_char [] = Inl IndexError"
| "first_char (c # cs) = Inr c"

text \<open>The class \<open>\d\<close> of \<open>re\<close>; \<open>re.sub(r'\D', '', s)\<close> keeps exactly these characters.\<close>

definition isdigit :: "char \<Rightarrow> bool" where
  "isdigit c = (let n = (of_char c :: nat) in 48 \<le> n \<and> n \<le> 57)"

text \<open>
  \<open>_hash_email\<close>: \<open>username, domain = email.split('@')\<close> needs exactly two parts; a
  value that is not a string has no \<open>split\<close>.
\<close>

fun hash_email :: "pyval \<Rightarrow> error + string" where
  "hash_email (PStr email) =
     (case split_on CHR ''@'' email of
        [username, domain] \<Rightarrow> Inr (take 8 (sha256_hex username) @ ''@'' @ domain)
      | _ \<Rightarrow> Inl ValueError)"
| "hash_email v = Inl AttributeError"

fun hash_phone :: "pyval \<Rightarrow> error + string" where
  "hash_phone (PStr phone) =
     (let digits = filter isdigit phone
      in if length digits > 10
         then (let country_code = take (length digits - 10) digits;
                   number = drop (length digits - 10) digits
               in Inr (''+'' @ country_code @ ''-XXX-'' @ take 6 (sha256_hex number)))
         else Inr (''XXX-'' @ take 6 (sha256_hex digits)))"
| "hash_phone v = Inl TypeError"

fun hash_name :: "pyval \<Rightarrow> error + string" where
  "hash_name (PStr name) =
     (let parts = split_ws name
      in if length parts \<ge> 2
         then (case first_char (parts ! 0) of
                 Inl e \<Rightarrow> Inl e
               | Inr first_initial \<Rightarrow>
                   (case first_char (last parts) of
                      Inl e \<Rightarrow> Inl e
                    | Inr last_initial \<Rightarrow>
                        Inr ([first_initial] @ ''.''
                             @ take 4 (sha256_hex (join '' '' (drop 1 (butlast parts))))
                             @ ''.'' @ [last_initial] @ ''.'')))
         else Inr (take 8 (sha256_hex name)))"
| "hash_name v = Inl AttributeError"

text \<open>\<open>if key in anonymized: anonymized[key] = f(anonymized[key])\<close>\<close>

definition hash_field :: "string \<Rightarrow> (pyval \<Rightarrow> error + string) \<Rightarrow> pydict \<Rightarrow> error + pydict" where
  "hash_field key f anonymized =
     (case anonymized key of
        None \<Rightarrow> Inr anonymized
      | Some v \<Rightarrow> (case f v of Inl e \<Rightarrow> Inl e | Inr h \<Rightarrow> Inr (anonymized(key \<mapsto> PStr h))))"

definition anonymize_data :: "pydict \<Rightarrow> error + pydict" where
  "anonymize_data data =
     (case hash_field ''email'' hash_email data of
        Inl e \<Rightarrow> Inl e
      | Inr a \<Rightarrow>
          (case hash_field ''phone'' hash_phone a of
             Inl e \<Rightarrow> Inl e
           | Inr b \<Rightarrow> hash_field ''full_name'' hash_name b))"

subsection \<open>The clock\<close>

text \<open>
  \<open>datetime.utcnow()\<close> is an input of the model: the fields of the \<open>datetime\<close> read by
  the call.
\<close>

record datetime =
  year :: nat
  month :: nat
  day :: nat
  hour :: nat
  minute :: nat
  second :: nat
  microsecond :: nat

text \<open>A number in decimal, as \<open>str(n)\<close> and \<open>%d\<close> write it.\<close>

fun show_nat :: "nat \<Rightarrow> string" where
  "show_nat n =
     (if n < 10 then [''0123456789'' ! n]
      else show_nat (n div 10) @ [''0123456789'' ! (n mod 10)])"

declare show_nat.simps [simp del]

text \<open>\<open>%0wd\<close>: at least \<open>w\<close> digits, zero-padded on the left.\<close>

definition dec :: "nat \<Rightarrow> nat \<Rightarrow> string" where
  "dec w n = replicate (w - length (show_nat n)) CHR ''0'' @ show_nat n"

text \<open>
  \<open>strftime('%Y%m%d%H%M%S')\<close>: the C library writes the year without padding (year 999
  is \<open>999\<close>) and the other fields on two digits.
\<close>

definition strftime :: "datetime \<Rightarrow> string" where
  "strftime t =
     show_nat (year t) @ dec 2 (month t) @ dec 2 (day t)
     @ dec 2 (hour t) @ dec 2 (minute t) @ dec 2 (second t)"

text \<open>
  \<open>isoformat()\<close>: \<open>%04d-%02d-%02dT%02d:%02d:%02d\<close>, and \<open>.%06d\<close> for the
  microseconds only when they are not zero.
\<close>

definition isoformat :: "datetime \<Rightarrow> string" where
  "isoformat t =
     dec 4 (year t) @ ''-'' @ dec 2 (month t) @ ''-'' @ dec 2 (day t) @ ''T''
     @ dec 2 (hour t) @ '':'' @ dec 2 (minute t) @ '':'' @ dec 2 (second t)
     @ (if microsecond t = 0 then [] else ''.'' @ dec 6 (microsecond t))"

subsection \<open>Saving and candidate IDs\<close>

text \<open>
  \<open>save_anonymized_data\<close>. The file system is an input of the model: \<open>io_error\<close> is
  the exception that \<open>open\<close> or \<open>json.dump\<close> raises, if any. The result is the file
  path, as the two operands of the \<open>pathlib\<close> join (the directory and the file name),
  and the object dumped into the file.
\<close>

definition save_anonymized_data ::
  "datetime \<Rightarrow> error option \<Rightarrow> pydict \<Rightarrow> string \<Rightarrow> error + ((string \<times> string) \<times> pydict)" where
  "save_anonymized_data now io_error data candidate_id =
     (case anonymize_data data of
        Inl e \<Rightarrow> Inl e
      | Inr anonymized_data \<Rightarrow>
          (let dumped = anonymized_data(''candidate_id'' \<mapsto> PStr candidate_id,
                                        ''timestamp'' \<mapsto> PStr (isoformat now));
               file_path = (''candidates'', candidate_id @ ''_anonymized.json'')
           in case io_error of
                Some e \<Rightarrow> Inl e
              | None \<Rightarrow> Inr (file_path, dumped)))"

text \<open>
  \<open>generate_candidate_id\<close>: \<open>data.get('email', '')\<close> is the value stored under the key,
  or the empty string when the key is absent; a value that is not a string has no
  \<open>encode\<close>.
\<close>

definition generate_candidate_id :: "datetime \<Rightarrow> pydict \<Rightarrow> error + string" where
  "generate_candidate_id now data =
     (case (case data ''email'' of None \<Rightarrow> PStr [] | Some v \<Rightarrow> v) of
        PStr email \<Rightarrow>
          (let email_hash = take 8 (sha256_hex email);
               timestamp = strftime now
           in Inr (''CAND_'' @ email_hash @ ''_'' @ timestamp))
      | _ \<Rightarrow> Inl AttributeError)"


subsection \<open>The profile of a parsed resume\<close>

text \<open>
  The dict that \<open>parse_resume\<close> returns, from the results of its four extractors: every
  key is present, and a field that was not found has the value \<open>None\<close>.
\<close>

definition opt_str :: "string option \<Rightarrow> pyval" where
  "opt_str r = (case r of None \<Rightarrow> PNone | Some s \<Rightarrow> PStr s)"

definition opt_int :: "int option \<Rightarrow> pyval" where
  "opt_int r = (case r of None \<Rightarrow> PNone | Some n \<Rightarrow> PInt n)"

definition resume_fields ::
  "string option \<Rightarrow> string option \<Rightarrow> int option \<Rightarrow> string list \<Rightarrow> pydict" where
  "resume_fields email phone years_experience tech_stack =
     [''email'' \<mapsto> opt_str email,
      ''phone'' \<mapsto> opt_str phone,
      ''years_experience'' \<mapsto> opt_int years_experience,
      ''tech_stack'' \<mapsto> PList tech_stack]"

subsection \<open>Well-formed personal fields\<close>

text \<open>
  The values on which the three hash functions return: a string with exactly one \<open>@\<close>
  for the email, any string for the phone and the name.
\<close>

fun is_email :: "pyval \<Rightarrow> bool" where
  "is_email (PStr e) = (count_list e CHR ''@'' = 1)"
| "is_email v = False"

fun is_str :: "pyval \<Rightarrow> bool" where
  "is_str (PStr s) = True"
| "is_str v = False"

definition well_formed_pii :: "pydict \<Rightarrow> bool" where
  "well_formed_pii data =
     ((case data ''email'' of None \<Rightarrow> True | Some v \<Rightarrow> is_email v)
      \<and> (case data ''phone'' of None \<Rightarrow> True | Some v \<Rightarrow> is_str v)
      \<and> (case data ''full_name'' of None \<Rightarrow> True | Some v \<Rightarrow> is_str v))"



section \<open>Field extractors (resume\_parser.py, ResumeParser)\<close>

subsection \<open>The tech stack\<close>

definition tech_keywords :: "(string \<times> string list) list" where
  "tech_keywords =
     [(''languages'', [''python'', ''java'', ''javascript'', ''typescript'', ''c++'', ''c#'', ''ruby'',
                       ''php'', ''swift'', ''kotlin'', ''go'', ''rust'']),
      (''frameworks'', [''django'', ''flask'', ''spring'', ''react'', ''angular'', ''vue'', ''express'',
                        ''rails'', ''laravel'', ''asp.net'']),
      (''databases'', [''mysql'', ''postgresql'', ''mongodb'', ''redis'', ''oracle'', ''sql server'',
                       ''cassandra'']),
      (''cloud'', [''aws'', ''azure'', ''gcp'', ''heroku'', ''digitalocean'']),
      (''tools'', [''docker'', ''kubernetes'', ''jenkins'', ''git'', ''jira'', ''confluence'']),
      (''ai_ml'', [''tensorflow'', ''pytorch'', ''scikit-learn'', ''pandas'', ''numpy'', ''keras''])]"

text \<open>\<open>str.lower()\<close> on code points below 256: A to Z and the accented capitals.\<close>

definition lower_char :: "char \<Rightarrow> char" where
  "lower_char c =
     (let n = (of_char c :: nat)
      in if (65 \<le> n \<and> n \<le> 90) \<or> (192 \<le> n \<and> n \<le> 214) \<or> (216 \<le> n \<and> n \<le> 222)
         then char_of (n + 32) else c)"

definition lower :: "string \<Rightarrow> string" where
  "lower s = map lower_char s"

text \<open>\<open>tech in text_lower\<close>: the keyword occurs somewhere in the text.\<close>

fun starts_with :: "string \<Rightarrow> string \<Rightarrow> bool" where
  "starts_with [] s = True"
| "starts_with (k # ks) [] = False"
| "starts_with (k # ks) (c # cs) = (k = c \<and> starts_with ks cs)"

fun contains :: "string \<Rightarrow> string \<Rightarrow> bool" where
  "contains tech [] = (tech = [])"
| "contains tech (c # cs) = (starts_with tech (c # cs) \<or> contains tech cs)"

text \<open>
  The two loops. The set \<open>found_tech\<close> is a list without duplicates (\<open>add\<close> is
  \<open>List.insert\<close>); its order does not matter, since the result is sorted.
\<close>

fun scan_keywords :: "string \<Rightarrow> string list \<Rightarrow> string list \<Rightarrow> string list" where
  "scan_keywords text_lower [] found_tech = found_tech"
| "scan_keywords text_lower (tech # keywords) found_tech =
     scan_keywords text_lower keywords
       (if contains tech text_lower then List.insert tech found_tech else found_tech)"

fun scan_categories :: "string \<Rightarrow> (string \<times> string list) list \<Rightarrow> string list \<Rightarrow> string list" where
  "scan_categories text_lower [] found_tech = found_tech"
| "scan_categories text_lower ((category, keywords) # items) found_tech =
     scan_categories text_lower items (scan_keywords text_lower keywords found_tech)"

text \<open>\<open>sorted\<close> orders strings by code point, as the order on \<open>string\<close> here does.\<close>

definition extract_tech_stack :: "string \<Rightarrow> string list" where
  "extract_tech_stack text = sort (scan_categories (lower text) tech_keywords [])"

subsection \<open>Regular expressions (re)\<close>

text \<open>
  The phone patterns are sequences of character classes with greedy counts and the
  assertion \<open>\b\<close>. \<open>re\<close> matches by backtracking: a greedy count takes as many characters
  as it can and gives them back one at a time when the rest of the pattern fails; the
  search tries the start positions from left to right.
\<close>

datatype cls = Digit | Space | OneOf string

fun in_cls :: "cls \<Rightarrow> char \<Rightarrow> bool" where
  "in_cls Digit c = isdigit c"
| "in_cls Space c = isspace c"
| "in_cls (OneOf cs) c = (c \<in> set cs)"

text \<open>\<open>Rep c lo hi\<close> is \<open>c{lo,hi}\<close>, \<open>Star c\<close> is \<open>c*\<close>, \<open>WordB\<close> is \<open>\b\<close>.\<close>

datatype atom = Rep cls nat nat | Star cls | WordB

text \<open>The class \<open>\w\<close> on code points below 256.\<close>

definition isword :: "char \<Rightarrow> bool" where
  "isword c =
     (let n = (of_char c :: nat)
      in (48 \<le> n \<and> n \<le> 57) \<or> (65 \<le> n \<and> n \<le> 90) \<or> n = 95 \<or> (97 \<le> n \<and> n \<le> 122)
         \<or> n = 170 \<or> n = 178 \<or> n = 179 \<or> n = 181 \<or> n = 185 \<or> n = 186
         \<or> (188 \<le> n \<and> n \<le> 190) \<or> (192 \<le> n \<and> n \<le> 214) \<or> (216 \<le> n \<and> n \<le> 246)
         \<or> 248 \<le> n)"

text \<open>
  A position in the text: the character before it (none at the start), and the text from
  it on. \<open>\b\<close> holds where exactly one of the two neighbours is a word character.
\<close>

definition at_boundary :: "char option \<Rightarrow> string \<Rightarrow> bool" where
  "at_boundary prev rest =
     ((case prev of None \<Rightarrow> False | Some c \<Rightarrow> isword c)
      \<noteq> (case rest of [] \<Rightarrow> False | c # cs \<Rightarrow> isword c))"

text \<open>A state of the matcher: the position, and the text matched so far.\<close>

type_synonym config = "char option \<times> string \<times> string"

fun advance :: "nat \<Rightarrow> config \<Rightarrow> config" where
  "advance k (prev, matched, rest) =
     ((if k = 0 then prev else Some (rest ! (k - 1))), matched @ take k rest, drop k rest)"

text \<open>
  The states after one atom, in the order in which backtracking tries them: the longest
  count first.
\<close>

fun step :: "atom \<Rightarrow> config \<Rightarrow> config list" where
  "step (Rep c lo hi) (prev, matched, rest) =
     (let n = min hi (length (takeWhile (in_cls c) rest))
      in map (\<lambda>k. advance k (prev, matched, rest)) (rev [lo..<Suc n]))"
| "step (Star c) (prev, matched, rest) =
     (let n = length (takeWhile (in_cls c) rest)
      in map (\<lambda>k. advance k (prev, matched, rest)) (rev [0..<Suc n]))"
| "step WordB (prev, matched, rest) =
     (if at_boundary prev rest then [(prev, matched, rest)] else [])"

fun run :: "atom list \<Rightarrow> config list \<Rightarrow> config list" where
  "run [] cfgs = cfgs"
| "run (a # atoms) cfgs = run atoms (concat (map (step a) cfgs))"

text \<open>The match of a pattern at one position: the first state that the whole pattern reaches.\<close>

definition match_at :: "atom list \<Rightarrow> char option \<Rightarrow> string \<Rightarrow> string option" where
  "match_at pattern prev rest =
     (case run pattern [(prev, [], rest)] of
        [] \<Rightarrow> None
      | (p, matched, r) # cfgs \<Rightarrow> Some matched)"

text \<open>\<open>re.search(pattern, text).group(0)\<close>, or \<open>None\<close>.\<close>

fun search_from :: "atom list \<Rightarrow> char option \<Rightarrow> string \<Rightarrow> string option" where
  "search_from pattern prev [] = match_at pattern prev []"
| "search_from pattern prev (c # cs) =
     (case match_at pattern prev (c # cs) of
        Some m \<Rightarrow> Some m
      | None \<Rightarrow> search_from pattern (Some c) cs)"

definition re_search :: "atom list \<Rightarrow> string \<Rightarrow> string option" where
  "re_search pattern text = search_from pattern None text"

subsection \<open>The phone number\<close>

text \<open>\<open>\b\d{3}[-.]?\d{3}[-.]?\d{4}\b\<close>\<close>

definition plain_pattern :: "atom list" where
  "plain_pattern =
     [WordB, Rep Digit 3 3, Rep (OneOf ''-.'') 0 1, Rep Digit 3 3, Rep (OneOf ''-.'') 0 1,
      Rep Digit 4 4, WordB]"

text \<open>\<open>\+\d{1,3}[-.]?\d{3}[-.]?\d{3}[-.]?\d{4}\b\<close>\<close>

definition international_pattern :: "atom list" where
  "international_pattern =
     [Rep (OneOf ''+'') 1 1, Rep Digit 1 3, Rep (OneOf ''-.'') 0 1, Rep Digit 3 3,
      Rep (OneOf ''-.'') 0 1, Rep Digit 3 3, Rep (OneOf ''-.'') 0 1, Rep Digit 4 4, WordB]"

text \<open>\<open>\(\d{3}\)\s*\d{3}[-.]?\d{4}\b\<close>\<close>

definition parenthesized_pattern :: "atom list" where
  "parenthesized_pattern =
     [Rep (OneOf ''('') 1 1, Rep Digit 3 3, Rep (OneOf '')'') 1 1, Star Space, Rep Digit 3 3,
      Rep (OneOf ''-.'') 0 1, Rep Digit 4 4, WordB]"

definition phone_patterns :: "atom list list" where
  "phone_patterns = [plain_pattern, international_pattern, parenthesized_pattern]"

text \<open>\<open>for pattern in phone_patterns: match = re.search(pattern, text); if match: return ...\<close>\<close>

fun first_match :: "atom list list \<Rightarrow> string \<Rightarrow> string option" where
  "first_match [] text = None"
| "first_match (pattern # patterns) text =
     (case re_search pattern text of
        Some m \<Rightarrow> Some m
      | None \<Rightarrow> first_match patterns text)"

definition extract_phone :: "string \<Rightarrow> string option" where
  "extract_phone text = first_match phone_patterns text"

text \<open>The match of a pattern that starts at index \<open>i\<close> of the text, if there is one.\<close>

definition matches_at :: "atom list \<Rightarrow> string \<Rightarrow> nat \<Rightarrow> string option" where
  "matches_at pattern text i =
     match_at pattern (if i = 0 then None else Some (text ! (i - 1))) (drop i text)"


text \<open>
  The same from a position inside a text: \<open>prev\<close> is the character before \<open>s\<close>, and
  \<open>i\<close> counts from the start of \<open>s\<close>.
\<close>

definition ctx_match :: "atom list \<Rightarrow> char option \<Rightarrow> string \<Rightarrow> nat \<Rightarrow> string option" where
  "ctx_match p prev s i = match_at p (if i = 0 then prev else Some (s ! (i - 1))) (drop i s)"


section \<open>Properties of the text extraction\<close>

lemma dropWhile_all: "list_all P xs \<Longrightarrow> dropWhile P xs = []"
  by (induction xs) auto

lemma strip_empty_iff: "strip s = [] \<longleftrightarrow> blank s"
proof
  assume "strip s = []"
  then have "dropWhile isspace (rev (dropWhile isspace s)) = []"
    by (simp add: strip_def)
  then have a: "\<forall>c \<in> set (dropWhile isspace s). isspace c"
    by simp
  have "\<forall>c \<in> set s. isspace c"
  proof
    fix c assume "c \<in> set s"
    then have "c \<in> set (takeWhile isspace s) \<or> c \<in> set (dropWhile isspace s)"
      by (metis Un_iff set_append takeWhile_dropWhile_id)
    then show "isspace c"
      using a by (auto dest: set_takeWhileD)
  qed
  then show "blank s" by (simp add: blank_def list_all_iff)
next
  assume "blank s"
  then show "strip s = []"
    by (simp add: strip_def blank_def dropWhile_all)
qed

lemma fitz_pages_acc:
  "fitz_pages acc pages = (case fitz_pages [] pages of Inl e \<Rightarrow> Inl e | Inr u \<Rightarrow> Inr (acc @ u))"
proof (induction pages arbitrary: acc)
  case Nil
  then show ?case by simp
next
  case (Cons p pages)
  show ?case
  proof (cases p)
    case (Inl e)
    then show ?thesis by simp
  next
    case (Inr t)
    have a: "fitz_pages (acc @ t) pages =
        (case fitz_pages [] pages of Inl e \<Rightarrow> Inl e | Inr u \<Rightarrow> Inr ((acc @ t) @ u))"
      by (rule Cons.IH)
    have b: "fitz_pages t pages =
        (case fitz_pages [] pages of Inl e \<Rightarrow> Inl e | Inr u \<Rightarrow> Inr (t @ u))"
      by (rule Cons.IH)
    show ?thesis
      unfolding Inr fitz_pages.simps append_Nil a b
      by (simp split: sum.splits)
  qed
qed

lemma pdfplumber_pages_acc:
  "pdfplumber_pages acc pages =
     (case pdfplumber_pages [] pages of Inl e \<Rightarrow> Inl e | Inr u \<Rightarrow> Inr (acc @ u))"
proof (induction pages arbitrary: acc)
  case Nil
  then show ?case by simp
next
  case (Cons p pages)
  show ?case
  proof (cases p)
    case (Inl e)
    then show ?thesis by simp
  next
    case (Inr ot)
    define t where "t = (case ot of None \<Rightarrow> [] | Some s \<Rightarrow> s)"
    have step: "pdfplumber_pages x (p # pages) = pdfplumber_pages (x @ t) pages" for x
      unfolding Inr t_def by (cases ot) simp_all
    have a: "pdfplumber_pages (acc @ t) pages =
        (case pdfplumber_pages [] pages of Inl e \<Rightarrow> Inl e | Inr u \<Rightarrow> Inr ((acc @ t) @ u))"
      by (rule Cons.IH)
    have b: "pdfplumber_pages t pages =
        (case pdfplumber_pages [] pages of Inl e \<Rightarrow> Inl e | Inr u \<Rightarrow> Inr (t @ u))"
      by (rule Cons.IH)
    show ?thesis
      unfolding step append_Nil a b
      by (simp split: sum.splits)
  qed
qed

lemma secondary_text_yields:
  "secondary_text libs fc acc =
     (case secondary_yields libs fc of
        Inl e \<Rightarrow> Inl (Exception ''Failed to extract text from PDF'')
      | Inr u \<Rightarrow> Inr (acc @ u))"
proof (cases "pdfplumber_open libs fc")
  case (Inl e)
  then show ?thesis by (simp add: secondary_text_def secondary_yields_def)
next
  case (Inr pages)
  show ?thesis
    unfolding secondary_text_def secondary_yields_def Inr sum.case
    by (subst pdfplumber_pages_acc) (simp split: sum.splits)
qed

lemma primary_text_yields:
  "primary_text libs fc = (case primary_yields libs fc of Inl e \<Rightarrow> [] | Inr t \<Rightarrow> t)"
  by (simp add: primary_text_def primary_yields_def split: sum.splits)

text \<open>
  C1, as amended. When the primary strategy raises or yields only whitespace, pdfplumber
  is opened. If the secondary strategy raises, the extraction fails with
  \<open>Exception("Failed to extract text from PDF")\<close>; if it yields a text, blank or not, the
  extraction returns the primary's (blank) text followed by the secondary's text.
\<close>

theorem pdf_blank_primary_falls_back:
  assumes "case primary_yields libs fc of Inl e \<Rightarrow> True | Inr t \<Rightarrow> blank t"
  shows "extract_text_from_pdf libs fc =
           ([FitzOpen, PdfplumberOpen],
            case secondary_yields libs fc of
              Inl e \<Rightarrow> Inl (Exception ''Failed to extract text from PDF'')
            | Inr u \<Rightarrow> Inr ((case primary_yields libs fc of Inl e \<Rightarrow> [] | Inr t \<Rightarrow> t) @ u))"
proof -
  have "blank (primary_text libs fc)"
    using assms by (simp add: primary_text_yields blank_def split: sum.splits)
  then have "strip (primary_text libs fc) = []"
    by (simp add: strip_empty_iff)
  then show ?thesis
    by (simp add: extract_text_from_pdf_def secondary_text_yields primary_text_yields)
qed

theorem pdf_blank_primary_falls_back_witness:
  "extract_text_from_pdf (libs_of (Inr [Inr ''  '', Inr [CHR 0x0A]]) (Inr [Inr None, Inr (Some ''Jane Roe'')])) []
     = ([FitzOpen, PdfplumberOpen], Inr (''  '' @ [CHR 0x0A] @ ''Jane Roe''))
   \<and> extract_text_from_pdf (libs_of (Inl TypeError) (Inr [Inr (Some ''x''), Inl ValueError])) []
     = ([FitzOpen, PdfplumberOpen], Inl (Exception ''Failed to extract text from PDF''))"
proof -
  have a: "case primary_yields (libs_of (Inr [Inr ''  '', Inr [CHR 0x0A]]) (Inr [Inr None, Inr (Some ''Jane Roe'')])) [] of
             Inl e \<Rightarrow> True | Inr t \<Rightarrow> blank t"
    by (simp add: primary_yields_def libs_of_def blank_def isspace_def)
  have b: "case primary_yields (libs_of (Inl TypeError) (Inr [Inr (Some ''x''), Inl ValueError])) [] of
             Inl e \<Rightarrow> True | Inr t \<Rightarrow> blank t"
    by (simp add: primary_yields_def libs_of_def)
  show ?thesis
    using pdf_blank_primary_falls_back [OF a] pdf_blank_primary_falls_back [OF b]
    by (simp add: primary_yields_def secondary_yields_def libs_of_def)
qed

text \<open>
  C1 as stated fails: a secondary strategy that yields no text without raising makes the
  extraction return the empty string, not an error.
\<close>

theorem pdf_blank_secondary_counterexample:
  "primary_yields (libs_of (Inr [Inr []]) (Inr [Inr None])) [] = Inr []
   \<and> secondary_yields (libs_of (Inr [Inr []]) (Inr [Inr None])) [] = Inr []
   \<and> extract_text_from_pdf (libs_of (Inr [Inr []]) (Inr [Inr None])) []
       = ([FitzOpen, PdfplumberOpen], Inr [])"
  by (simp add: primary_yields_def secondary_yields_def extract_text_from_pdf_def
      primary_text_def secondary_text_def libs_of_def strip_def)

text \<open>
  C8, as amended. When the primary strategy yields a text with at least one character that
  is not whitespace, the extraction returns exactly that text and pdfplumber is not opened.
\<close>

theorem pdf_primary_text_returned:
  assumes "primary_yields libs fc = Inr t" and "\<not> blank t"
  shows "extract_text_from_pdf libs fc = ([FitzOpen], Inr t)"
proof -
  have "primary_text libs fc = t"
    using assms(1) by (simp add: primary_text_yields)
  moreover have "strip t \<noteq> []"
    using assms(2) by (simp add: strip_empty_iff)
  ultimately show ?thesis
    by (simp add: extract_text_from_pdf_def)
qed

theorem pdf_primary_text_returned_witness:
  "extract_text_from_pdf (libs_of (Inr [Inr ''John '', Inr ''Doe'']) (Inl TypeError)) []
     = ([FitzOpen], Inr ''John Doe'')"
proof -
  have a: "primary_yields (libs_of (Inr [Inr ''John '', Inr ''Doe'']) (Inl TypeError)) [] = Inr ''John Doe''"
    by (simp add: primary_yields_def libs_of_def)
  have b: "\<not> blank ''John Doe''"
    by (simp add: blank_def isspace_def)
  show ?thesis
    by (rule pdf_primary_text_returned [OF a b])
qed

text \<open>
  C8 as stated fails: a primary text that is not empty but all whitespace sends the
  extraction to pdfplumber, and the result is not the primary's text.
\<close>

theorem pdf_whitespace_primary_counterexample:
  "primary_yields (libs_of (Inr [Inr '' '']) (Inr [Inr (Some ''abc'')])) [] = Inr '' ''
   \<and> '' '' \<noteq> []
   \<and> extract_text_from_pdf (libs_of (Inr [Inr '' '']) (Inr [Inr (Some ''abc'')])) []
       = ([FitzOpen, PdfplumberOpen], Inr '' abc'')"
  by (simp add: primary_yields_def extract_text_from_pdf_def
      primary_text_def secondary_text_def libs_of_def strip_def isspace_def)

section \<open>Properties of the anonymization\<close>

lemma split_on_length: "length (split_on sep s) = Suc (count_list s sep)"
  by (induction s) (auto split: list.splits)

lemma split_on_no_sep: "sep \<notin> set a \<Longrightarrow> split_on sep a = [a]"
  by (induction a) auto

lemma split_on_append: "sep \<notin> set a \<Longrightarrow> split_on sep (a @ sep # b) = a # split_on sep b"
  by (induction a) auto

lemma split_on_two: "sep \<notin> set a \<Longrightarrow> sep \<notin> set b \<Longrightarrow> split_on sep (a @ sep # b) = [a, b]"
  by (simp add: split_on_append split_on_no_sep)

lemma hexchar_in: "hexchar n \<in> set ''0123456789abcdef''"
proof -
  have "n mod 16 < length ''0123456789abcdef''" by simp
  then show ?thesis unfolding hexchar_def by (rule nth_mem)
qed

lemma hex32_length: "length (hex32 w) = 8"
  by (simp add: hex32_def)

lemma hex32_set: "set (hex32 w) \<subseteq> set ''0123456789abcdef''"
  unfolding hex32_def using hexchar_in by auto

lemma hstate_cases:
  obtains a b c d e f g h where "st = (a, b, c, d, e, f, g, (h::u32))"
  by (metis surj_pair)

lemma hexdigest_length: "length (hexdigest st) = 64"
  by (cases st rule: hstate_cases) (simp add: hex32_length)

lemma hexdigest_set: "set (hexdigest st) \<subseteq> set ''0123456789abcdef''"
proof (cases st rule: hstate_cases)
  case (1 a b c d e f g h)
  show ?thesis
    unfolding 1 hexdigest.simps set_append
    using hex32_set by blast
qed

lemma sha256_hex_length: "length (sha256_hex s) = 64"
  by (simp add: sha256_hex_def hexdigest_length)

lemma sha256_hex_set: "set (sha256_hex s) \<subseteq> set ''0123456789abcdef''"
  by (simp only: sha256_hex_def hexdigest_set)

lemma digest_prefix_length: "n \<le> 64 \<Longrightarrow> length (take n (sha256_hex s)) = n"
  by (simp add: sha256_hex_length)

lemma digest_prefix_set: "set (take n (sha256_hex s)) \<subseteq> set ''0123456789abcdef''"
  using sha256_hex_set set_take_subset by (rule order_trans [rotated])

lemma split_runs_nonempty: "p \<in> set (split_runs cur s) \<Longrightarrow> p \<noteq> []"
  by (induction cur s rule: split_runs.induct) (auto split: if_splits)

lemma first_char_nonempty: "p \<noteq> [] \<Longrightarrow> \<exists>c. first_char p = Inr c"
  by (cases p) auto

lemma hash_name_returns: "\<exists>h. hash_name (PStr name) = Inr h"
proof (cases "length (split_ws name) \<ge> 2")
  case False
  then show ?thesis by (simp add: Let_def)
next
  case True
  then have ne: "split_ws name \<noteq> []" by auto
  have "split_ws name ! 0 \<in> set (split_ws name)" using True by (simp add: ne)
  then have "split_ws name ! 0 \<noteq> []" unfolding split_ws_def by (rule split_runs_nonempty)
  then obtain c where c: "first_char (split_ws name ! 0) = Inr c"
    using first_char_nonempty by blast
  have "last (split_ws name) \<in> set (split_ws name)" using ne by simp
  then have "last (split_ws name) \<noteq> []" unfolding split_ws_def by (rule split_runs_nonempty)
  then obtain d where d: "first_char (last (split_ws name)) = Inr d"
    using first_char_nonempty by blast
  show ?thesis using True c d by (simp add: Let_def)
qed

lemma hash_phone_returns: "\<exists>h. hash_phone (PStr phone) = Inr h"
  by (simp add: Let_def)

lemma hash_field_frame:
  "hash_field key f d = Inr d' \<Longrightarrow> dom d' = dom d \<and> (\<forall>j. j \<noteq> key \<longrightarrow> d' j = d j)"
  by (auto simp: hash_field_def split: option.splits sum.splits if_splits)

lemma anonymize_data_frame:
  assumes "anonymize_data data = Inr a"
  shows "dom a = dom data"
    and "k \<noteq> ''email'' \<Longrightarrow> k \<noteq> ''phone'' \<Longrightarrow> k \<noteq> ''full_name'' \<Longrightarrow> a k = data k"
proof -
  from assms obtain d1 d2 where
    s1: "hash_field ''email'' hash_email data = Inr d1" and
    s2: "hash_field ''phone'' hash_phone d1 = Inr d2" and
    s3: "hash_field ''full_name'' hash_name d2 = Inr a"
    by (auto simp: anonymize_data_def split: sum.splits)
  note f1 = hash_field_frame [OF s1] and f2 = hash_field_frame [OF s2] and f3 = hash_field_frame [OF s3]
  show "dom a = dom data" using f1 f2 f3 by simp
  show "a k = data k" if "k \<noteq> ''email''" "k \<noteq> ''phone''" "k \<noteq> ''full_name''"
    using f1 f2 f3 that by simp
qed

lemma is_email_cases: "is_email v \<Longrightarrow> \<exists>e. v = PStr e \<and> count_list e CHR ''@'' = 1"
  by (cases v) simp_all

lemma is_str_cases: "is_str v \<Longrightarrow> \<exists>s. v = PStr s"
  by (cases v) simp_all

lemma hash_email_one_at:
  "count_list email CHR ''@'' = 1 \<Longrightarrow> \<exists>h. hash_email (PStr email) = Inr h"
proof -
  assume "count_list email CHR ''@'' = 1"
  then have "length (split_on CHR ''@'' email) = 2"
    by (simp add: split_on_length)
  then obtain u d where "split_on CHR ''@'' email = [u, d]"
    by (auto simp: length_Suc_conv numeral_2_eq_2)
  then show ?thesis by simp
qed

lemma hash_email_not_one_at:
  "count_list email CHR ''@'' \<noteq> 1 \<Longrightarrow> hash_email (PStr email) = Inl ValueError"
proof -
  assume "count_list email CHR ''@'' \<noteq> 1"
  then have "length (split_on CHR ''@'' email) \<noteq> 2"
    by (simp add: split_on_length)
  then show ?thesis
    by (auto split: list.splits)
qed

lemma hash_field_absent: "d key = None \<Longrightarrow> hash_field key f d = Inr d"
  by (simp add: hash_field_def)

lemma hash_field_present:
  "d key = Some v \<Longrightarrow> f v = Inr h \<Longrightarrow> hash_field key f d = Inr (d(key \<mapsto> PStr h))"
  by (simp add: hash_field_def)

lemma hash_field_returns:
  "(\<And>v. d key = Some v \<Longrightarrow> \<exists>h. f v = Inr h) \<Longrightarrow> \<exists>d'. hash_field key f d = Inr d'"
  by (cases "d key") (auto simp: hash_field_def)

lemma anonymize_data_returns:
  assumes "well_formed_pii data"
  shows "\<exists>a. anonymize_data data = Inr a"
proof -
  have "\<exists>d1. hash_field ''email'' hash_email data = Inr d1"
  proof (rule hash_field_returns)
    fix v assume "data ''email'' = Some v"
    with assms have "is_email v" by (simp add: well_formed_pii_def)
    then obtain e where "v = PStr e" "count_list e CHR ''@'' = 1"
      using is_email_cases by blast
    then show "\<exists>h. hash_email v = Inr h" using hash_email_one_at by simp
  qed
  then obtain d1 where s1: "hash_field ''email'' hash_email data = Inr d1" ..
  have k1: "d1 ''phone'' = data ''phone''" "d1 ''full_name'' = data ''full_name''"
    using hash_field_frame [OF s1] by simp_all
  have "\<exists>d2. hash_field ''phone'' hash_phone d1 = Inr d2"
  proof (rule hash_field_returns)
    fix v assume "d1 ''phone'' = Some v"
    with k1 have "data ''phone'' = Some v" by simp
    with assms have "is_str v" by (simp add: well_formed_pii_def)
    then obtain p where "v = PStr p"
      using is_str_cases by blast
    then show "\<exists>h. hash_phone v = Inr h" using hash_phone_returns by simp
  qed
  then obtain d2 where s2: "hash_field ''phone'' hash_phone d1 = Inr d2" ..
  have k2: "d2 ''full_name'' = data ''full_name''"
    using hash_field_frame [OF s2] k1 by simp
  have "\<exists>a. hash_field ''full_name'' hash_name d2 = Inr a"
  proof (rule hash_field_returns)
    fix v assume "d2 ''full_name'' = Some v"
    with k2 have "data ''full_name'' = Some v" by simp
    with assms have "is_str v" by (simp add: well_formed_pii_def)
    then obtain n where "v = PStr n"
      using is_str_cases by blast
    then show "\<exists>h. hash_name v = Inr h" using hash_name_returns by simp
  qed
  then obtain a where s3: "hash_field ''full_name'' hash_name d2 = Inr a" ..
  show ?thesis using s1 s2 s3 by (simp add: anonymize_data_def)
qed

lemma anonymize_data_bad_email:
  assumes "data ''email'' = Some (PStr email)" and "count_list email CHR ''@'' \<noteq> 1"
  shows "anonymize_data data = Inl ValueError"
proof -
  have "hash_email (PStr email) = Inl ValueError"
    using assms(2) by (rule hash_email_not_one_at)
  then show ?thesis
    using assms(1) by (simp add: anonymize_data_def hash_field_def del: hash_email.simps)
qed

text \<open>
  Where every personal field is absent or a well-formed string, \<open>anonymize_data\<close>
  returns, and a field is absent from the result exactly when it is absent from the input.
\<close>

lemma anonymize_well_formed_returns:
  assumes "well_formed_pii data"
  shows "\<exists>a. anonymize_data data = Inr a \<and> (\<forall>k. (a k = None) = (data k = None))"
proof -
  from anonymize_data_returns [OF assms] obtain a where a: "anonymize_data data = Inr a" ..
  have "dom a = dom data" using a by (rule anonymize_data_frame)
  then have "\<forall>k. (a k = None) = (data k = None)" by (metis domIff)
  with a show ?thesis by blast
qed

text \<open>
  C2. Anonymization must not raise on a profile in which some of \<open>full_name\<close>, \<open>email\<close>
  and \<open>phone\<close> are unset, and must pass unset fields through unset. The code breaks this
  on a field left unset the way \<open>parse_resume\<close> leaves it, a present key with the value
  \<open>None\<close>: the guard \<open>'email' in anonymized\<close> holds, the hash function is called on
  \<open>None\<close>, and \<open>anonymize_data\<close> raises (\<open>AttributeError\<close> from \<open>None.split\<close> for the
  email and the name, \<open>TypeError\<close> from \<open>re.sub\<close> for the phone). The first profile below
  is what \<open>parse_resume\<close> returns for a resume in which nothing is found.
\<close>

theorem anonymize_unset_field_raises:
  "anonymize_data (resume_fields None None None []) = Inl AttributeError
   \<and> anonymize_data (resume_fields (Some ''jane@example.com'') None (Some 5) [''python''])
       = Inl TypeError
   \<and> anonymize_data [''full_name'' \<mapsto> PNone, ''tech_stack'' \<mapsto> PList []] = Inl AttributeError"
  by (simp add: anonymize_data_def hash_field_def resume_fields_def opt_str_def opt_int_def)

text \<open>
  C9. When the \<open>email\<close> field is present and is a string that does not contain exactly
  one \<open>@\<close>, \<open>anonymize_data\<close> raises (a \<open>ValueError\<close>, from unpacking the split into
  two names) and returns no profile.
\<close>
theorem anonymize_email_not_one_at_raises:
  assumes "data ''email'' = Some (PStr email)" and "count_list email CHR ''@'' \<noteq> 1"
  shows "anonymize_data data = Inl ValueError"
  using assms by (rule anonymize_data_bad_email)

theorem anonymize_email_not_one_at_raises_witness:
  "anonymize_data [''email'' \<mapsto> PStr ''nobody''] = Inl ValueError
   \<and> anonymize_data [''email'' \<mapsto> PStr ''a@b@c.org'', ''phone'' \<mapsto> PStr ''1''] = Inl ValueError"
proof -
  have a: "[''email'' \<mapsto> PStr ''nobody''] ''email'' = Some (PStr ''nobody'')" by simp
  have b: "count_list ''nobody'' CHR ''@'' \<noteq> 1" by simp
  have c: "[''email'' \<mapsto> PStr ''a@b@c.org'', ''phone'' \<mapsto> PStr ''1''] ''email'' = Some (PStr ''a@b@c.org'')"
    by simp
  have d: "count_list ''a@b@c.org'' CHR ''@'' \<noteq> 1" by simp
  show ?thesis
    using anonymize_email_not_one_at_raises
            [of "[''email'' \<mapsto> PStr ''nobody'']" "''nobody''", OF a b]
          anonymize_email_not_one_at_raises
            [of "[''email'' \<mapsto> PStr ''a@b@c.org'', ''phone'' \<mapsto> PStr ''1'']" "''a@b@c.org''", OF c d]
    by simp
qed

text \<open>
  C4. Whenever \<open>anonymize_data\<close> returns, the fields \<open>years_experience\<close>,
  \<open>desired_position\<close>, \<open>current_location\<close> and \<open>tech_stack\<close> of the result are those
  of the input, unchanged; and it does return on every profile with well-formed personal
  fields.
\<close>
theorem anonymize_copies_other_fields:
  "(well_formed_pii data \<longrightarrow> (\<exists>a. anonymize_data data = Inr a))
   \<and> (\<forall>a. anonymize_data data = Inr a \<longrightarrow>
          a ''years_experience'' = data ''years_experience''
        \<and> a ''desired_position'' = data ''desired_position''
        \<and> a ''current_location'' = data ''current_location''
        \<and> a ''tech_stack'' = data ''tech_stack'')"
  using anonymize_data_returns anonymize_data_frame(2) by simp

text \<open>
  C10. Whenever \<open>anonymize_data\<close> returns, the result has exactly the keys of the input
  and differs from it at most at \<open>email\<close>, \<open>phone\<close> and \<open>full_name\<close>; the keys
  \<open>candidate_id\<close> and \<open>timestamp\<close> are added by \<open>save_anonymized_data\<close> only.
\<close>
theorem anonymize_keeps_field_set:
  "(\<forall>a. anonymize_data data = Inr a \<longrightarrow>
        dom a = dom data
      \<and> (\<forall>k. k \<notin> {''email'', ''phone'', ''full_name''} \<longrightarrow> a k = data k))
   \<and> (\<forall>path obj. save_anonymized_data now io_error data candidate_id = Inr (path, obj) \<longrightarrow>
        dom obj = dom data \<union> {''candidate_id'', ''timestamp''})"
proof (intro conjI allI impI)
  fix a assume "anonymize_data data = Inr a"
  then show "dom a = dom data" by (rule anonymize_data_frame)
next
  fix a k assume "anonymize_data data = Inr a" "k \<notin> {''email'', ''phone'', ''full_name''}"
  then show "a k = data k" using anonymize_data_frame(2) by simp
next
  fix path obj assume "save_anonymized_data now io_error data candidate_id = Inr (path, obj)"
  then obtain a where a: "anonymize_data data = Inr a"
    and obj: "obj = a(''candidate_id'' \<mapsto> PStr candidate_id, ''timestamp'' \<mapsto> PStr (isoformat now))"
    by (auto simp: save_anonymized_data_def Let_def split: sum.splits option.splits)
  have "dom a = dom data" using a by (rule anonymize_data_frame)
  then show "dom obj = dom data \<union> {''candidate_id'', ''timestamp''}"
    unfolding obj by auto
qed

lemma sha256_hex_empty:
  "sha256_hex [] = ''e3b0c44298fc1c149afbf4c8996fb92427ae41e4649b934ca495991b7852b855''"
  by code_simp

lemma sha256_hex_abc:
  "sha256_hex ''abc'' = ''ba7816bf8f01cfea414140de5dae2223b00361a396177a9cb410ff61f20015ad''"
  by code_simp

lemma sha256_hex_john: "take 8 (sha256_hex ''john'') = ''96d9632f''"
  by code_simp

text \<open>
  C5. For an email \<open>username@domain\<close> (neither part containing \<open>@\<close>), \<open>_hash_email\<close>
  returns the first 8 hexadecimal digits of the SHA-256 of the username, then \<open>@\<close>, then the
  domain unchanged. The result is a function of the email alone: no salt, clock or state
  enters it, so two calls on the same email give the same string.
\<close>
theorem hash_email_local_domain:
  assumes "CHR ''@'' \<notin> set username" and "CHR ''@'' \<notin> set domain"
  shows "hash_email (PStr (username @ ''@'' @ domain))
           = Inr (take 8 (sha256_hex username) @ ''@'' @ domain)
         \<and> length (take 8 (sha256_hex username)) = 8
         \<and> set (take 8 (sha256_hex username)) \<subseteq> set ''0123456789abcdef''"
proof -
  have "split_on CHR ''@'' (username @ CHR ''@'' # domain) = [username, domain]"
    using assms by (rule split_on_two)
  then have "hash_email (PStr (username @ ''@'' @ domain))
           = Inr (take 8 (sha256_hex username) @ ''@'' @ domain)"
    by simp
  moreover have "length (take 8 (sha256_hex username)) = 8"
    by (simp add: sha256_hex_length)
  moreover note digest_prefix_set [of 8 username]
  ultimately show ?thesis by blast
qed

theorem hash_email_local_domain_witness:
  "hash_email (PStr ''john@example.com'') = Inr ''96d9632f@example.com''"
proof -
  have a: "CHR ''@'' \<notin> set ''john''" by simp
  have b: "CHR ''@'' \<notin> set ''example.com''" by simp
  from hash_email_local_domain [OF a b] show ?thesis
    by (simp only: sha256_hex_john) simp
qed

lemma digit_in: "k < 10 \<Longrightarrow> ''0123456789'' ! k \<in> set ''0123456789''"
  by (rule nth_mem) simp

lemma show_nat_small: "n < 10 \<Longrightarrow> show_nat n = [''0123456789'' ! n]"
  by (simp add: show_nat.simps)

lemma show_nat_large:
  "10 \<le> n \<Longrightarrow> show_nat n = show_nat (n div 10) @ [''0123456789'' ! (n mod 10)]"
  by (subst show_nat.simps) simp

lemma show_nat_length_1: "n < 10 \<Longrightarrow> length (show_nat n) = 1"
  by (simp add: show_nat_small)

lemma show_nat_length_step: "10 \<le> n \<Longrightarrow> length (show_nat n) = Suc (length (show_nat (n div 10)))"
  by (simp add: show_nat_large)

lemma show_nat_length_2:
  assumes "10 \<le> n" "n < 100"
  shows "length (show_nat n) = 2"
proof -
  have "n div 10 < 10" using assms(2) by simp
  then have "length (show_nat (n div 10)) = 1" by (rule show_nat_length_1)
  then show ?thesis using show_nat_length_step [OF assms(1)] by simp
qed

lemma show_nat_length_3:
  assumes "100 \<le> n" "n < 1000"
  shows "length (show_nat n) = 3"
proof -
  have "10 \<le> n div 10" "n div 10 < 100" using assms by simp_all
  then have "length (show_nat (n div 10)) = 2" by (rule show_nat_length_2)
  moreover have "10 \<le> n" using assms(1) by simp
  ultimately show ?thesis using show_nat_length_step [of n] by simp
qed

lemma show_nat_length_4:
  assumes "1000 \<le> n" "n < 10000"
  shows "length (show_nat n) = 4"
proof -
  have "100 \<le> n div 10" "n div 10 < 1000" using assms by simp_all
  then have "length (show_nat (n div 10)) = 3" by (rule show_nat_length_3)
  moreover have "10 \<le> n" using assms(1) by simp
  ultimately show ?thesis using show_nat_length_step [of n] by simp
qed

lemma dec_2_length: "n < 100 \<Longrightarrow> length (dec 2 n) = 2"
  by (cases "n < 10") (simp_all add: dec_def show_nat_length_1 show_nat_length_2)

lemma strftime_length:
  assumes "1000 \<le> year t" "year t \<le> 9999" "month t \<le> 12" "day t \<le> 31"
    "hour t < 24" "minute t < 60" "second t < 60"
  shows "length (strftime t) = 14"
  using assms by (simp add: strftime_def show_nat_length_4 dec_2_length)

lemma show_nat_set: "set (show_nat n) \<subseteq> set ''0123456789''"
proof (induction n rule: show_nat.induct)
  case (1 n)
  show ?case
  proof (cases "n < 10")
    case True
    then show ?thesis using digit_in [OF True] by (simp add: show_nat_small)
  next
    case False
    have m: "n mod 10 < 10" by simp
    have e: "show_nat n = show_nat (n div 10) @ [''0123456789'' ! (n mod 10)]"
      using False by (simp add: show_nat_large)
    show ?thesis
      unfolding e using digit_in [OF m] 1 [OF False] by simp
  qed
qed

lemma dec_set: "set (dec w n) \<subseteq> set ''0123456789''"
  unfolding dec_def using show_nat_set [of n] by auto

lemma strftime_set: "set (strftime t) \<subseteq> set ''0123456789''"
  unfolding strftime_def set_append using dec_set show_nat_set by blast

lemma strftime_example:
  "strftime \<lparr>year = 2026, month = 11, day = 3, hour = 23, minute = 11, second = 5, microsecond = 120\<rparr>
     = ''20261103231105''"
  by code_simp

lemma sha256_hex_john_email: "take 8 (sha256_hex ''john@example.com'') = ''855f96e9''"
  by code_simp

text \<open>
  C6, as amended. \<open>generate_candidate_id\<close> returns \<open>CAND_\<close>, the first 8 hexadecimal
  digits of the SHA-256 of the email (of the empty string when the key is absent), an
  underscore, and the clock as \<open>YYYYMMDDHHMMSS\<close> (14 digits from the year 1000 on); two
  calls with the same email whose clocks agree down to the second return the same ID.
\<close>

theorem candidate_id_format:
  "(data ''email'' = None \<longrightarrow>
      generate_candidate_id now data
        = Inr (''CAND_'' @ take 8 (sha256_hex []) @ ''_'' @ strftime now))
   \<and> (data ''email'' = Some (PStr e) \<longrightarrow>
      generate_candidate_id now data
        = Inr (''CAND_'' @ take 8 (sha256_hex e) @ ''_'' @ strftime now))
   \<and> length (take 8 (sha256_hex e)) = 8
   \<and> set (take 8 (sha256_hex e)) \<subseteq> set ''0123456789abcdef''
   \<and> strftime now = show_nat (year now) @ dec 2 (month now) @ dec 2 (day now)
                     @ dec 2 (hour now) @ dec 2 (minute now) @ dec 2 (second now)
   \<and> (1000 \<le> year now \<and> year now \<le> 9999 \<and> month now \<le> 12 \<and> day now \<le> 31
        \<and> hour now < 24 \<and> minute now < 60 \<and> second now < 60 \<longrightarrow>
      length (strftime now) = 14)
   \<and> set (strftime now) \<subseteq> set ''0123456789''
   \<and> (data' ''email'' = data ''email'' \<and> year now' = year now \<and> month now' = month now
        \<and> day now' = day now \<and> hour now' = hour now \<and> minute now' = minute now
        \<and> second now' = second now \<longrightarrow>
      generate_candidate_id now' data' = generate_candidate_id now data)"
proof (intro conjI impI)
  show "length (take 8 (sha256_hex e)) = 8" by (simp add: sha256_hex_length)
  show "set (take 8 (sha256_hex e)) \<subseteq> set ''0123456789abcdef''" by (rule digest_prefix_set)
  show "set (strftime now) \<subseteq> set ''0123456789''" by (rule strftime_set)
  show "strftime now = show_nat (year now) @ dec 2 (month now) @ dec 2 (day now)
                     @ dec 2 (hour now) @ dec 2 (minute now) @ dec 2 (second now)"
    by (simp add: strftime_def)
next
  assume "1000 \<le> year now \<and> year now \<le> 9999 \<and> month now \<le> 12 \<and> day now \<le> 31
        \<and> hour now < 24 \<and> minute now < 60 \<and> second now < 60"
  then show "length (strftime now) = 14" by (simp add: strftime_length)
next
  assume "data ''email'' = None"
  then show "generate_candidate_id now data
        = Inr (''CAND_'' @ take 8 (sha256_hex []) @ ''_'' @ strftime now)"
    by (simp add: generate_candidate_id_def)
next
  assume "data ''email'' = Some (PStr e)"
  then show "generate_candidate_id now data
        = Inr (''CAND_'' @ take 8 (sha256_hex e) @ ''_'' @ strftime now)"
    by (simp add: generate_candidate_id_def)
next
  assume "data' ''email'' = data ''email'' \<and> year now' = year now \<and> month now' = month now
        \<and> day now' = day now \<and> hour now' = hour now \<and> minute now' = minute now
        \<and> second now' = second now"
  then have "strftime now' = strftime now" "data' ''email'' = data ''email''"
    by (simp_all add: strftime_def)
  then show "generate_candidate_id now' data' = generate_candidate_id now data"
    by (simp add: generate_candidate_id_def Let_def split: option.splits pyval.splits)
qed

theorem candidate_id_format_witness:
  "generate_candidate_id
      \<lparr>year = 2026, month = 11, day = 3, hour = 23, minute = 11, second = 5, microsecond = 120\<rparr>
      [''email'' \<mapsto> PStr ''john@example.com'']
     = Inr ''CAND_855f96e9_20261103231105''
   \<and> generate_candidate_id
      \<lparr>year = 2026, month = 11, day = 3, hour = 23, minute = 11, second = 5, microsecond = 999999\<rparr>
      [''email'' \<mapsto> PStr ''john@example.com'', ''phone'' \<mapsto> PStr ''1'']
     = Inr ''CAND_855f96e9_20261103231105''
   \<and> generate_candidate_id
      \<lparr>year = 2026, month = 11, day = 3, hour = 23, minute = 11, second = 5, microsecond = 120\<rparr>
      [''phone'' \<mapsto> PStr ''1'']
     = Inr ''CAND_e3b0c442_20261103231105''
   \<and> length (strftime
      \<lparr>year = 2026, month = 11, day = 3, hour = 23, minute = 11, second = 5, microsecond = 120\<rparr>)
     = 14"
proof -
  let ?now = "\<lparr>year = 2026, month = 11, day = 3, hour = 23, minute = 11, second = 5, microsecond = 120\<rparr>"
  let ?now' = "\<lparr>year = 2026, month = 11, day = 3, hour = 23, minute = 11, second = 5, microsecond = 999999\<rparr>"
  let ?d = "[''email'' \<mapsto> PStr ''john@example.com'']"
  let ?d' = "[''email'' \<mapsto> PStr ''john@example.com'', ''phone'' \<mapsto> PStr ''1'']"
  let ?p = "[''phone'' \<mapsto> PStr ''1'']"
  note t = candidate_id_format [of ?d ?now "''john@example.com''" ?d' ?now']
  note u = candidate_id_format [of ?p ?now "[]" Map.empty ?now]
  note t_present = t [THEN conjunct2, THEN conjunct1]
  note t_length = t [THEN conjunct2, THEN conjunct2, THEN conjunct2, THEN conjunct2,
      THEN conjunct2, THEN conjunct1]
  note t_same = t [THEN conjunct2, THEN conjunct2, THEN conjunct2, THEN conjunct2,
      THEN conjunct2, THEN conjunct2, THEN conjunct2]
  note u_absent = u [THEN conjunct1]
  have present: "?d ''email'' = Some (PStr ''john@example.com'')" by simp
  have absent: "?p ''email'' = None" by simp
  have same: "?d' ''email'' = ?d ''email'' \<and> year ?now' = year ?now \<and> month ?now' = month ?now
        \<and> day ?now' = day ?now \<and> hour ?now' = hour ?now \<and> minute ?now' = minute ?now
        \<and> second ?now' = second ?now"
    by simp
  have valid: "1000 \<le> year ?now \<and> year ?now \<le> 9999 \<and> month ?now \<le> 12 \<and> day ?now \<le> 31
        \<and> hour ?now < 24 \<and> minute ?now < 60 \<and> second ?now < 60"
    by simp
  have "generate_candidate_id ?now ?d
      = Inr (''CAND_'' @ take 8 (sha256_hex ''john@example.com'') @ ''_'' @ strftime ?now)"
    using t_present present by (rule mp)
  then have a: "generate_candidate_id ?now ?d = Inr ''CAND_855f96e9_20261103231105''"
    by (simp only: sha256_hex_john_email strftime_example) simp
  have b: "generate_candidate_id ?now' ?d' = generate_candidate_id ?now ?d"
    using t_same same by (rule mp)
  have "generate_candidate_id ?now ?p
      = Inr (''CAND_'' @ take 8 (sha256_hex []) @ ''_'' @ strftime ?now)"
    using u_absent absent by (rule mp)
  then have c: "generate_candidate_id ?now ?p = Inr ''CAND_e3b0c442_20261103231105''"
    by (simp only: sha256_hex_empty strftime_example) simp
  have d: "length (strftime ?now) = 14"
    using t_length valid by (rule mp)
  show ?thesis
    using a b c d by simp
qed

text \<open>
  C6 as stated fails: the ID is not the prefix, the digest and the timestamp one after the
  other, since an underscore stands between the digest and the timestamp; whatever the
  prefix, the ID does not end with the digest followed by the timestamp.
\<close>

theorem candidate_id_separator_counterexample:
  "generate_candidate_id
      \<lparr>year = 2026, month = 11, day = 3, hour = 23, minute = 11, second = 5, microsecond = 120\<rparr>
      [''email'' \<mapsto> PStr ''john@example.com'']
     = Inr ''CAND_855f96e9_20261103231105''
   \<and> take 8 (sha256_hex ''john@example.com'') = ''855f96e9''
   \<and> strftime
      \<lparr>year = 2026, month = 11, day = 3, hour = 23, minute = 11, second = 5, microsecond = 120\<rparr>
     = ''20261103231105''
   \<and> ''CAND_855f96e9_20261103231105'' \<noteq> ''CAND_'' @ ''855f96e9'' @ ''20261103231105''
   \<and> drop (length ''CAND_855f96e9_20261103231105'' - length (''855f96e9'' @ ''20261103231105''))
        ''CAND_855f96e9_20261103231105''
     \<noteq> ''855f96e9'' @ ''20261103231105''"
proof -
  let ?now = "\<lparr>year = 2026, month = 11, day = 3, hour = 23, minute = 11, second = 5, microsecond = 120\<rparr>"
  have "generate_candidate_id ?now [''email'' \<mapsto> PStr ''john@example.com'']
      = Inr (''CAND_'' @ take 8 (sha256_hex ''john@example.com'') @ ''_'' @ strftime ?now)"
    by (simp add: generate_candidate_id_def)
  then have a: "generate_candidate_id ?now [''email'' \<mapsto> PStr ''john@example.com'']
      = Inr ''CAND_855f96e9_20261103231105''"
    by (simp only: sha256_hex_john_email strftime_example) simp
  have b: "''CAND_855f96e9_20261103231105'' \<noteq> ''CAND_'' @ ''855f96e9'' @ ''20261103231105''"
    by simp
  have c: "drop (length ''CAND_855f96e9_20261103231105'' - length (''855f96e9'' @ ''20261103231105''))
        ''CAND_855f96e9_20261103231105''
     \<noteq> ''855f96e9'' @ ''20261103231105''"
    by simp
  show ?thesis
    using a b c sha256_hex_john_email strftime_example by blast
qed

theorem anonymize_copies_other_fields_witness:
  "\<exists>a. anonymize_data
          [''full_name'' \<mapsto> PStr ''John Michael Smith'', ''email'' \<mapsto> PStr ''john@example.com'',
           ''phone'' \<mapsto> PStr ''+15551234567'', ''years_experience'' \<mapsto> PInt 5,
           ''desired_position'' \<mapsto> PStr ''Engineer'', ''current_location'' \<mapsto> PStr ''Pune, India'',
           ''tech_stack'' \<mapsto> PList [''python'', ''react'']] = Inr a
       \<and> a ''years_experience'' = Some (PInt 5)
       \<and> a ''desired_position'' = Some (PStr ''Engineer'')
       \<and> a ''current_location'' = Some (PStr ''Pune, India'')
       \<and> a ''tech_stack'' = Some (PList [''python'', ''react''])"
proof -
  let ?d = "[''full_name'' \<mapsto> PStr ''John Michael Smith'', ''email'' \<mapsto> PStr ''john@example.com'',
           ''phone'' \<mapsto> PStr ''+15551234567'', ''years_experience'' \<mapsto> PInt 5,
           ''desired_position'' \<mapsto> PStr ''Engineer'', ''current_location'' \<mapsto> PStr ''Pune, India'',
           ''tech_stack'' \<mapsto> PList [''python'', ''react'']]"
  note t = anonymize_copies_other_fields [of ?d]
  have wf: "well_formed_pii ?d" by (simp add: well_formed_pii_def)
  with t obtain a where a: "anonymize_data ?d = Inr a" by blast
  with t have "a ''years_experience'' = ?d ''years_experience''"
    "a ''desired_position'' = ?d ''desired_position''"
    "a ''current_location'' = ?d ''current_location''"
    "a ''tech_stack'' = ?d ''tech_stack''"
    by blast+
  then have "a ''years_experience'' = Some (PInt 5)"
       "a ''desired_position'' = Some (PStr ''Engineer'')"
       "a ''current_location'' = Some (PStr ''Pune, India'')"
       "a ''tech_stack'' = Some (PList [''python'', ''react''])"
    by simp_all
  with a show ?thesis by blast
qed

theorem anonymize_keeps_field_set_witness:
  "\<exists>a path obj.
      anonymize_data [''full_name'' \<mapsto> PStr ''Madonna'', ''years_experience'' \<mapsto> PInt 30] = Inr a
    \<and> dom a = {''full_name'', ''years_experience''}
    \<and> a ''years_experience'' = Some (PInt 30)
    \<and> save_anonymized_data
         \<lparr>year = 2026, month = 11, day = 3, hour = 23, minute = 11, second = 5, microsecond = 0\<rparr>
         None
         [''full_name'' \<mapsto> PStr ''Madonna'', ''years_experience'' \<mapsto> PInt 30] ''CAND_1'' = Inr (path, obj)
    \<and> dom obj = {''full_name'', ''years_experience'', ''candidate_id'', ''timestamp''}"
proof -
  let ?d = "[''full_name'' \<mapsto> PStr ''Madonna'', ''years_experience'' \<mapsto> PInt 30]"
  let ?now = "\<lparr>year = 2026, month = 11, day = 3, hour = 23, minute = 11, second = 5, microsecond = 0\<rparr>"
  note t = anonymize_keeps_field_set [of ?d ?now None "''CAND_1''"]
  have "well_formed_pii ?d" by (simp add: well_formed_pii_def)
  then obtain a where a: "anonymize_data ?d = Inr a"
    using anonymize_data_returns by blast
  then obtain path obj where s: "save_anonymized_data ?now None ?d ''CAND_1'' = Inr (path, obj)"
    by (simp add: save_anonymized_data_def)
  from t a have "dom a = dom ?d" "a ''years_experience'' = ?d ''years_experience''"
    by simp_all
  then have 1: "dom a = {''full_name'', ''years_experience''}" "a ''years_experience'' = Some (PInt 30)"
    by auto
  from t s have "dom obj = dom ?d \<union> {''candidate_id'', ''timestamp''}" by blast
  then have 2: "dom obj = {''full_name'', ''years_experience'', ''candidate_id'', ''timestamp''}"
    by auto
  from a s 1 2 show ?thesis by blast
qed

section \<open>Properties of the field extractors\<close>

lemma starts_with_iff: "starts_with k s \<longleftrightarrow> (\<exists>r. s = k @ r)"
  by (induction k s rule: starts_with.induct) auto

lemma contains_iff: "contains k t \<longleftrightarrow> (\<exists>p r. t = p @ k @ r)"
proof (induction t)
  case Nil
  then show ?case by auto
next
  case (Cons c cs)
  show ?case
  proof
    assume "contains k (c # cs)"
    then consider "starts_with k (c # cs)" | "contains k cs" by auto
    then show "\<exists>p r. c # cs = p @ k @ r"
    proof cases
      case 1
      then obtain r where "c # cs = k @ r" by (auto simp: starts_with_iff)
      then have "c # cs = [] @ k @ r" by simp
      then show ?thesis by blast
    next
      case 2
      then obtain p r where "cs = p @ k @ r" using Cons.IH by blast
      then have "c # cs = (c # p) @ k @ r" by simp
      then show ?thesis by blast
    qed
  next
    assume "\<exists>p r. c # cs = p @ k @ r"
    then obtain p r where pr: "c # cs = p @ k @ r" by blast
    show "contains k (c # cs)"
    proof (cases p)
      case Nil
      then have "starts_with k (c # cs)" using pr by (auto simp: starts_with_iff)
      then show ?thesis by simp
    next
      case (Cons a p')
      then have "cs = p' @ k @ r" using pr by simp
      then have "contains k cs" using Cons.IH by blast
      then show ?thesis by simp
    qed
  qed
qed

lemma scan_keywords_set:
  "set (scan_keywords t ks found) = set found \<union> {k \<in> set ks. contains k t}"
  by (induction ks arbitrary: found) auto

lemma scan_keywords_distinct:
  "distinct found \<Longrightarrow> distinct (scan_keywords t ks found)"
  by (induction ks arbitrary: found) auto

lemma scan_categories_set:
  "set (scan_categories t items found)
     = set found \<union> {k \<in> set (concat (map snd items)). contains k t}"
  by (induction t items found rule: scan_categories.induct) (auto simp: scan_keywords_set)

lemma scan_categories_distinct:
  "distinct found \<Longrightarrow> distinct (scan_categories t items found)"
  by (induction t items found rule: scan_categories.induct) (auto simp: scan_keywords_distinct)

lemma sort_distinct_set: "distinct xs \<Longrightarrow> sort xs = sorted_list_of_set (set xs)"
  by (simp add: sorted_list_of_set_sort_remdups distinct_remdups_id)

lemma extract_tech_stack_example: "extract_tech_stack ''I use Python and react daily'' = [''python'', ''react'']"
  by code_simp

lemma extract_tech_stack_gopher: "extract_tech_stack ''gopher'' = [''go'']"
  by code_simp

text \<open>
  C7. \<open>extract_tech_stack\<close> returns the taxonomy keywords that occur as substrings of the
  lowercased text, anywhere in it and with no word boundary, each once, sorted by code
  point; the entries are the keywords of the taxonomy, not the spelling of the document.
\<close>

theorem extract_tech_stack_spec:
  "extract_tech_stack text
     = sorted_list_of_set
         {tech \<in> set (concat (map snd tech_keywords)).
            \<exists>before after. lower text = before @ tech @ after}
   \<and> sorted (extract_tech_stack text)
   \<and> distinct (extract_tech_stack text)
   \<and> extract_tech_stack ''I use Python and react daily'' = [''python'', ''react'']
   \<and> extract_tech_stack ''gopher'' = [''go'']"
proof -
  let ?found = "scan_categories (lower text) tech_keywords []"
  have d: "distinct ?found" by (rule scan_categories_distinct) simp
  have s: "set ?found = {tech \<in> set (concat (map snd tech_keywords)).
            \<exists>before after. lower text = before @ tech @ after}"
    by (simp add: scan_categories_set contains_iff)
  have "extract_tech_stack text = sorted_list_of_set (set ?found)"
    unfolding extract_tech_stack_def using d by (rule sort_distinct_set)
  then have 1: "extract_tech_stack text = sorted_list_of_set
         {tech \<in> set (concat (map snd tech_keywords)).
            \<exists>before after. lower text = before @ tech @ after}"
    by (simp only: s)
  have 2: "sorted (extract_tech_stack text)" by (simp add: extract_tech_stack_def)
  have 3: "distinct (extract_tech_stack text)" using d by (simp add: extract_tech_stack_def)
  show ?thesis
    using 1 2 3 extract_tech_stack_example extract_tech_stack_gopher by blast
qed

lemma ctx_match_0: "ctx_match p prev s 0 = match_at p prev s"
  by (simp add: ctx_match_def)

lemma ctx_match_Suc: "ctx_match p prev (c # cs) (Suc i) = ctx_match p (Some c) cs i"
  by (cases i) (simp_all add: ctx_match_def)

lemma search_from_None_iff:
  "search_from p prev s = None \<longleftrightarrow> (\<forall>i \<le> length s. ctx_match p prev s i = None)"
proof (induction s arbitrary: prev)
  case Nil
  then show ?case by (simp add: ctx_match_0)
next
  case (Cons c cs)
  show ?case
  proof
    assume a: "search_from p prev (c # cs) = None"
    then have m0: "match_at p prev (c # cs) = None" and r: "search_from p (Some c) cs = None"
      by (auto split: option.splits)
    show "\<forall>i \<le> length (c # cs). ctx_match p prev (c # cs) i = None"
    proof (intro allI impI)
      fix i assume "i \<le> length (c # cs)"
      show "ctx_match p prev (c # cs) i = None"
      proof (cases i)
        case 0
        then show ?thesis using m0 by (simp add: ctx_match_0)
      next
        case (Suc k)
        then have "k \<le> length cs" using \<open>i \<le> length (c # cs)\<close> by simp
        then have "ctx_match p (Some c) cs k = None" using r Cons.IH by blast
        then show ?thesis using Suc by (simp add: ctx_match_Suc)
      qed
    qed
  next
    assume a: "\<forall>i \<le> length (c # cs). ctx_match p prev (c # cs) i = None"
    then have "ctx_match p prev (c # cs) 0 = None" by blast
    then have m0: "match_at p prev (c # cs) = None" by (simp add: ctx_match_0)
    have "\<forall>k \<le> length cs. ctx_match p (Some c) cs k = None"
    proof (intro allI impI)
      fix k assume "k \<le> length cs"
      then have "ctx_match p prev (c # cs) (Suc k) = None" using a by simp
      then show "ctx_match p (Some c) cs k = None" by (simp add: ctx_match_Suc)
    qed
    then have "search_from p (Some c) cs = None" using Cons.IH by blast
    then show "search_from p prev (c # cs) = None" using m0 by simp
  qed
qed

lemma search_from_leftmost:
  "i \<le> length s \<Longrightarrow> (\<forall>j<i. ctx_match p prev s j = None) \<Longrightarrow> ctx_match p prev s i = Some m
     \<Longrightarrow> search_from p prev s = Some m"
proof (induction s arbitrary: prev i)
  case Nil
  then show ?case by (simp add: ctx_match_0)
next
  case (Cons c cs)
  show ?case
  proof (cases i)
    case 0
    then have "match_at p prev (c # cs) = Some m" using Cons.prems(3) by (simp add: ctx_match_0)
    then show ?thesis by simp
  next
    case (Suc k)
    have "ctx_match p prev (c # cs) 0 = None" using Cons.prems(2) Suc by blast
    then have m0: "match_at p prev (c # cs) = None" by (simp add: ctx_match_0)
    have k: "k \<le> length cs" using Cons.prems(1) Suc by simp
    have n: "\<forall>j<k. ctx_match p (Some c) cs j = None"
    proof (intro allI impI)
      fix j assume "j < k"
      then have "ctx_match p prev (c # cs) (Suc j) = None" using Cons.prems(2) Suc by simp
      then show "ctx_match p (Some c) cs j = None" by (simp add: ctx_match_Suc)
    qed
    have "ctx_match p (Some c) cs k = Some m" using Cons.prems(3) Suc by (simp add: ctx_match_Suc)
    then have "search_from p (Some c) cs = Some m" using Cons.IH [OF k n] by blast
    then show ?thesis using m0 by simp
  qed
qed

lemma matches_at_ctx: "matches_at p s i = ctx_match p None s i"
  by (simp add: matches_at_def ctx_match_def)

lemma re_search_None_iff:
  "re_search p s = None \<longleftrightarrow> (\<forall>i \<le> length s. matches_at p s i = None)"
  by (simp add: re_search_def search_from_None_iff matches_at_ctx)

lemma re_search_leftmost:
  "i \<le> length s \<Longrightarrow> (\<forall>j<i. matches_at p s j = None) \<Longrightarrow> matches_at p s i = Some m
     \<Longrightarrow> re_search p s = Some m"
  unfolding re_search_def matches_at_ctx by (rule search_from_leftmost)

lemma list_all_upt: "list_all P [0..<n] \<Longrightarrow> \<forall>j<n. P j"
  by (simp add: list_all_iff)

lemma isdigit_simps:
  "isdigit CHR ''0''" "isdigit CHR ''1''" "isdigit CHR ''2''" "isdigit CHR ''3''" "isdigit CHR ''4''"
  "isdigit CHR ''5''" "isdigit CHR ''6''" "isdigit CHR ''7''" "isdigit CHR ''8''" "isdigit CHR ''9''"
  "\<not> isdigit CHR ''-''"
  by (simp_all add: isdigit_def)

lemma plain_match_number:
  assumes "\<not> (case prev of None \<Rightarrow> False | Some c \<Rightarrow> isword c)"
    and "post = [] \<or> \<not> isword (hd post)"
  shows "match_at plain_pattern prev (''123-456-7890'' @ post) = Some ''123-456-7890''"
proof -
  have b1: "at_boundary prev (''123-456-7890'' @ post)"
    using assms(1) by (simp add: at_boundary_def isword_def)
  have b2: "at_boundary (Some CHR ''0'') post"
    using assms(2) by (cases post) (simp_all add: at_boundary_def isword_def)
  have m: "min 4 (Suc (Suc (Suc (Suc n)))) = 4" for n :: nat by simp
  show ?thesis
    unfolding match_at_def plain_pattern_def
    using b1 b2
    by (simp add: isdigit_simps m upt_rec [of 3] upt_rec[of 4] upt_rec [of 0] upt_rec [of 1] upt_rec[of 2] numeral_2_eq_2 numeral_3_eq_3)
qed

lemma extract_phone_order:
  "extract_phone text =
     (case re_search plain_pattern text of
        Some m \<Rightarrow> Some m
      | None \<Rightarrow>
          (case re_search international_pattern text of
             Some m \<Rightarrow> Some m
           | None \<Rightarrow> re_search parenthesized_pattern text))"
  by (simp add: extract_phone_def phone_patterns_def split: option.splits)

lemma extract_phone_None_iff:
  "extract_phone text = None \<longleftrightarrow>
     (\<forall>p \<in> set phone_patterns. \<forall>i \<le> length text. matches_at p text i = None)"
proof -
  have "extract_phone text = None \<longleftrightarrow>
      re_search plain_pattern text = None \<and> re_search international_pattern text = None
      \<and> re_search parenthesized_pattern text = None"
    by (simp add: extract_phone_order split: option.splits)
  then show ?thesis
    by (simp add: re_search_None_iff phone_patterns_def)
qed

lemma number_at_end_of_prefix:
  assumes "pre = [] \<or> \<not> isword (last pre)" and "post = [] \<or> \<not> isword (hd post)"
  shows "matches_at plain_pattern (pre @ ''123-456-7890'' @ post) (length pre) = Some ''123-456-7890''"
proof -
  let ?prev = "if length pre = 0 then None else Some ((pre @ ''123-456-7890'' @ post) ! (length pre - 1))"
  have "\<not> (case ?prev of None \<Rightarrow> False | Some c \<Rightarrow> isword c)"
  proof (cases "pre = []")
    case True
    then show ?thesis by simp
  next
    case False
    then have "(pre @ ''123-456-7890'' @ post) ! (length pre - 1) = last pre"
      by (simp add: nth_append last_conv_nth)
    then show ?thesis using assms(1) False by simp
  qed
  then have m: "match_at plain_pattern ?prev (''123-456-7890'' @ post) = Some ''123-456-7890''"
    using assms(2) by (rule plain_match_number)
  have d: "drop (length pre) (pre @ ''123-456-7890'' @ post) = ''123-456-7890'' @ post"
    by simp
  show ?thesis unfolding matches_at_def d by (rule m)
qed

text \<open>
  C3, as amended. \<open>extract_phone\<close> tries the plain, the international and the
  parenthesized pattern in this order and returns the match of the first pattern that
  matches somewhere; the match of a pattern is its leftmost one; the result is \<open>None\<close>
  exactly when no pattern matches at any position. A text in which \<open>123-456-7890\<close> stands
  between word boundaries, with no match of the plain pattern starting before it, gives
  \<open>123-456-7890\<close>, whatever else the text contains.
\<close>

theorem extract_phone_precedence:
  "extract_phone text =
     (case re_search plain_pattern text of
        Some m \<Rightarrow> Some m
      | None \<Rightarrow>
          (case re_search international_pattern text of
             Some m \<Rightarrow> Some m
           | None \<Rightarrow> re_search parenthesized_pattern text))
   \<and> (i \<le> length text \<and> (\<forall>j<i. matches_at p text j = None) \<and> matches_at p text i = Some m
        \<longrightarrow> re_search p text = Some m)
   \<and> (extract_phone text = None \<longleftrightarrow>
        (\<forall>p \<in> set phone_patterns. \<forall>i \<le> length text. matches_at p text i = None))
   \<and> ((pre = [] \<or> \<not> isword (last pre)) \<and> (post = [] \<or> \<not> isword (hd post))
        \<and> (\<forall>j<length pre. matches_at plain_pattern (pre @ ''123-456-7890'' @ post) j = None)
        \<longrightarrow> extract_phone (pre @ ''123-456-7890'' @ post) = Some ''123-456-7890'')"
proof (intro conjI impI)
  show "extract_phone text =
     (case re_search plain_pattern text of
        Some m \<Rightarrow> Some m
      | None \<Rightarrow>
          (case re_search international_pattern text of
             Some m \<Rightarrow> Some m
           | None \<Rightarrow> re_search parenthesized_pattern text))"
    by (rule extract_phone_order)
next
  assume "i \<le> length text \<and> (\<forall>j<i. matches_at p text j = None) \<and> matches_at p text i = Some m"
  then show "re_search p text = Some m" using re_search_leftmost by blast
next
  show "extract_phone text = None \<longleftrightarrow>
        (\<forall>p \<in> set phone_patterns. \<forall>i \<le> length text. matches_at p text i = None)"
    by (rule extract_phone_None_iff)
next
  let ?t = "pre @ ''123-456-7890'' @ post"
  assume a: "(pre = [] \<or> \<not> isword (last pre)) \<and> (post = [] \<or> \<not> isword (hd post))
        \<and> (\<forall>j<length pre. matches_at plain_pattern ?t j = None)"
  then have "matches_at plain_pattern ?t (length pre) = Some ''123-456-7890''"
    using number_at_end_of_prefix by blast
  moreover have "length pre \<le> length ?t" by simp
  ultimately have "re_search plain_pattern ?t = Some ''123-456-7890''"
    using a re_search_leftmost by blast
  then show "extract_phone ?t = Some ''123-456-7890''"
    by (simp add: extract_phone_order)
qed

lemma no_plain_before_1:
  "list_all
     (\<lambda>j. matches_at plain_pattern (''Call '' @ ''123-456-7890'' @ '' or (987) 654-3210'') j = None)
     [0..<length ''Call '']"
  by code_simp

lemma no_plain_before_2:
  "list_all
     (\<lambda>j. matches_at plain_pattern (''(987) 654-3210 or '' @ ''123-456-7890'' @ []) j = None)
     [0..<length ''(987) 654-3210 or '']"
  by code_simp

theorem extract_phone_precedence_witness:
  "extract_phone ''Call 123-456-7890 or (987) 654-3210'' = Some ''123-456-7890''
   \<and> extract_phone ''(987) 654-3210 or 123-456-7890'' = Some ''123-456-7890''"
proof -
  have a1: "''Call '' = [] \<or> \<not> isword (last ''Call '')" by (simp add: isword_def)
  have b1: "'' or (987) 654-3210'' = [] \<or> \<not> isword (hd '' or (987) 654-3210'')"
    by (simp add: isword_def)
  have c1: "\<forall>j<length ''Call ''.
      matches_at plain_pattern (''Call '' @ ''123-456-7890'' @ '' or (987) 654-3210'') j = None"
    using no_plain_before_1 by (rule list_all_upt)
  have a2: "''(987) 654-3210 or '' = [] \<or> \<not> isword (last ''(987) 654-3210 or '')"
    by (simp add: isword_def)
  have b2: "[] = [] \<or> \<not> isword (hd [])" by simp
  have c2: "\<forall>j<length ''(987) 654-3210 or ''.
      matches_at plain_pattern (''(987) 654-3210 or '' @ ''123-456-7890'' @ []) j = None"
    using no_plain_before_2 by (rule list_all_upt)
  have 1: "extract_phone (''Call '' @ ''123-456-7890'' @ '' or (987) 654-3210'') = Some ''123-456-7890''"
    using extract_phone_precedence
            [of "''Call '' @ ''123-456-7890'' @ '' or (987) 654-3210''" 0 plain_pattern "[]"
                "''Call ''" "'' or (987) 654-3210''"]
          a1 b1 c1
    by blast
  have 2: "extract_phone (''(987) 654-3210 or '' @ ''123-456-7890'' @ []) = Some ''123-456-7890''"
    using extract_phone_precedence
            [of "''(987) 654-3210 or '' @ ''123-456-7890'' @ []" 0 plain_pattern "[]"
                "''(987) 654-3210 or ''" "[]"]
          a2 b2 c2
    by blast
  from 1 2 show ?thesis by simp
qed

text \<open>
  C3 as stated fails: where the plain number follows a word character, the plain pattern
  does not match it (there is no \<open>\b\<close> before its first digit), and the text that
  contains both numbers gives the parenthesized one.
\<close>

theorem extract_phone_both_counterexample:
  "extract_phone ''x123-456-7890 (987) 654-3210'' = Some ''(987) 654-3210''"
  by code_simp

end
